theory Spec2Isabelle
  imports Complex_Main "HOL-Library.AList"
begin

section \<open>The I Ching scorer (src/i_ching_scorer.py)\<close>

text \<open>
  The class \<open>IChingScorer\<close> is embedded with explicit state passing. Python's
  unbounded integers are \<open>int\<close>. Python's floats are modelled by exact reals, so every
  statement below is one of exact arithmetic; rounding is not modelled. A Python
  \<open>dict\<close> is an association list holding its items in insertion order, with distinct
  keys. Every exception the source can raise is a value of \<open>py_error\<close>.
\<close>

subsection \<open>Errors and dictionaries\<close>

datatype key = NumKey int | NameKey string

datatype py_error = KeyError key | ZeroDivisionError | StatisticsError

type_synonym ('k, 'v) dict = "('k \<times> 'v) list"

text \<open>\<open>d.get(k, default)\<close>\<close>

definition dict_get :: "('k, 'v) dict \<Rightarrow> 'k \<Rightarrow> 'v \<Rightarrow> 'v" where
  "dict_get d k dflt = (case map_of d k of None \<Rightarrow> dflt | Some v \<Rightarrow> v)"

text \<open>\<open>d[k] = v\<close>: an existing key keeps its place, a new key goes to the end.\<close>

definition dict_set :: "('k, 'v) dict \<Rightarrow> 'k \<Rightarrow> 'v \<Rightarrow> ('k, 'v) dict" where
  "dict_set d k v = AList.update k v d"

text \<open>The truth value of an optional dict: \<open>None\<close> and \<open>{}\<close> are both false.\<close>

definition truthy :: "'a list option \<Rightarrow> bool" where
  "truthy d = (case d of None \<Rightarrow> False | Some xs \<Rightarrow> xs \<noteq> [])"

text \<open>Sequencing of computations that may raise.\<close>

definition bind :: "py_error + 'a \<Rightarrow> ('a \<Rightarrow> py_error + 'b) \<Rightarrow> py_error + 'b" where
  "bind m f = (case m of Inl e \<Rightarrow> Inl e | Inr x \<Rightarrow> f x)"

text \<open>True division \<open>a / b\<close>, which raises on a zero divisor.\<close>

definition py_truediv :: "real \<Rightarrow> real \<Rightarrow> py_error + real" where
  "py_truediv a b = (if b = 0 then Inl ZeroDivisionError else Inr (a / b))"

subsection \<open>The object\<close>

record scorer =
  config :: "(string, int) dict"
  num_numbers :: int
  historical_draws :: "int list list"
  smoothing :: real
  frequencies :: "(int, int) dict"
  probabilities :: "(int, real) dict"

subsection \<open>Frequencies\<close>

text \<open>\<open>counts.update(draw)\<close> on a \<open>Counter\<close>: every occurrence adds one.\<close>

definition counter_update :: "(int \<rightharpoonup> int) \<Rightarrow> int list \<Rightarrow> (int \<rightharpoonup> int)" where
  "counter_update counts draw =
     fold (\<lambda>x m. m(x \<mapsto> (case m x of None \<Rightarrow> 0 | Some c \<Rightarrow> c) + 1)) draw counts"

definition compute_frequencies :: "int \<Rightarrow> int list list \<Rightarrow> (int, int) dict" where
  "compute_frequencies n draws =
     (let counts = fold (\<lambda>draw c. counter_update c draw) draws Map.empty
      in map (\<lambda>i. (i, case counts i of None \<Rightarrow> 0 | Some c \<Rightarrow> c)) [1..n])"

subsection \<open>Probabilities\<close>

text \<open>\<open>i % 5 or 5\<close>\<close>

definition modifier :: "int \<Rightarrow> int" where
  "modifier i = (if i mod 5 = 0 then 5 else i mod 5)"

text \<open>The loop of \<open>calculate_probabilities\<close> over \<open>range(1, num_numbers + 1)\<close>,
  carrying the locals \<open>weighted\<close> and \<open>total\<close> (here \<open>tot\<close>).\<close>

fun weigh_loop ::
  "(int, int) dict \<Rightarrow> real \<Rightarrow> int list \<Rightarrow> (int, real) dict \<times> real \<Rightarrow> (int, real) dict \<times> real"
where
  "weigh_loop freqs sm [] (weighted, tot) = (weighted, tot)"
| "weigh_loop freqs sm (i # rest) (weighted, tot) =
     (let count = dict_get freqs i 0;
          val = (real_of_int count + sm) * real_of_int (modifier i)
      in weigh_loop freqs sm rest (dict_set weighted i val, tot + val))"

text \<open>\<open>{i: v / total for i, v in d.items()}\<close>: the division is evaluated once per
  item, so an empty dict never divides.\<close>

definition normalise :: "(int, real) dict \<Rightarrow> real \<Rightarrow> py_error + (int, real) dict" where
  "normalise d tot =
     (if d = [] then Inr []
      else if tot = 0 then Inl ZeroDivisionError
      else Inr (map (\<lambda>(i, v). (i, v / tot)) d))"

text \<open>The method returns the state after the call together with the returned dict or
  the exception raised. The assignment to \<open>self.probabilities\<close> happens only once the
  comprehension has been evaluated, so a call that raises leaves the object as it was.\<close>

definition calculate_probabilities ::
  "scorer \<Rightarrow> real option \<Rightarrow> scorer \<times> (py_error + (int, real) dict)"
where
  "calculate_probabilities s smoothing_arg =
     (let sm = (case smoothing_arg of None \<Rightarrow> smoothing s | Some x \<Rightarrow> x);
          (weighted, tot) = weigh_loop (frequencies s) sm [1..num_numbers s] ([], 0)
      in case normalise weighted tot of
           Inl e \<Rightarrow> (s, Inl e)
         | Inr p \<Rightarrow> (s\<lparr>probabilities := p\<rparr>, Inr p))"

subsection \<open>Construction\<close>

text \<open>\<open>__init__\<close>; the smoothing argument defaults to 1.0. The field
  \<open>probabilities\<close> does not exist before the first call of
  \<open>calculate_probabilities\<close>, which does not read it; it is empty until then.\<close>

definition init ::
  "(string, int) dict \<Rightarrow> int list list \<Rightarrow> real option \<Rightarrow> py_error + scorer"
where
  "init cfg draws smoothing_arg =
     (case map_of cfg ''num_lotto_numbers'' of
        None \<Rightarrow> Inl (KeyError (NameKey ''num_lotto_numbers''))
      | Some n \<Rightarrow>
          (let s0 = \<lparr>config = cfg, num_numbers = n, historical_draws = draws,
                     smoothing = (case smoothing_arg of None \<Rightarrow> 1 | Some x \<Rightarrow> x),
                     frequencies = compute_frequencies n draws,
                     probabilities = []\<rparr>
           in case calculate_probabilities s0 None of
                (s1, Inl e) \<Rightarrow> Inl e
              | (s1, Inr p) \<Rightarrow> Inr s1))"

subsection \<open>Ensemble combination\<close>

text \<open>One pass of the loop body for key \<open>i\<close>: \<open>combined[i] *= w.get(i, 1.0)\<close> for each
  of the two optional dicts that is neither \<open>None\<close> nor empty.\<close>

definition ensemble_step ::
  "(int, real) dict option \<Rightarrow> (int, real) dict option \<Rightarrow> int \<Rightarrow> (int, real) dict
     \<Rightarrow> (int, real) dict"
where
  "ensemble_step temporal_weights ml_predictions i combined =
     (let c1 = (if truthy temporal_weights
                then AList.map_entry i (\<lambda>v. v * dict_get (the temporal_weights) i 1) combined
                else combined);
          c2 = (if truthy ml_predictions
                then AList.map_entry i (\<lambda>v. v * dict_get (the ml_predictions) i 1) c1
                else c1)
      in c2)"

text \<open>The method reads \<open>self.probabilities\<close> through a copy and assigns no field.\<close>

definition ensemble_probabilities ::
  "scorer \<Rightarrow> (int, real) dict option \<Rightarrow> (int, real) dict option
     \<Rightarrow> py_error + (int, real) dict"
where
  "ensemble_probabilities s temporal_weights ml_predictions =
     (let combined = fold (ensemble_step temporal_weights ml_predictions)
                       (map fst (probabilities s)) (probabilities s);
          tot = sum_list (map snd combined)
      in normalise combined tot)"

subsection \<open>Scoring\<close>

text \<open>\<open>d[k]\<close>, raising \<open>KeyError\<close> on a missing key.\<close>

definition prob_lookup :: "(int, real) dict \<Rightarrow> int \<Rightarrow> py_error + real" where
  "prob_lookup d n = (case map_of d n of None \<Rightarrow> Inl (KeyError (NumKey n)) | Some v \<Rightarrow> Inr v)"

definition weight_lookup :: "(string, real) dict \<Rightarrow> string \<Rightarrow> py_error + real" where
  "weight_lookup d k = (case map_of d k of None \<Rightarrow> Inl (KeyError (NameKey k)) | Some v \<Rightarrow> Inr v)"

text \<open>\<open>[self.probabilities[num] for num in number_set]\<close>: the first missing number
  raises.\<close>

fun lookup_all :: "(int, real) dict \<Rightarrow> int list \<Rightarrow> py_error + real list" where
  "lookup_all d [] = Inr []"
| "lookup_all d (n # ns) =
     bind (prob_lookup d n) (\<lambda>v. bind (lookup_all d ns) (\<lambda>vs. Inr (v # vs)))"

text \<open>\<open>statistics.mean\<close> of the standard library: it raises \<open>StatisticsError\<close> on
  empty data and otherwise returns the arithmetic mean.\<close>

definition mean :: "real list \<Rightarrow> py_error + real" where
  "mean xs = (if xs = [] then Inl StatisticsError else Inr (sum_list xs / real (length xs)))"

definition score :: "scorer \<Rightarrow> int list \<Rightarrow> py_error + real" where
  "score s number_set = bind (lookup_all (probabilities s) number_set) mean"

record components =
  c_spread :: real
  c_sum :: real
  c_frequency :: real
  c_recent :: real

record scoring =
  r_set :: "int list"
  r_score :: real
  r_components :: components

definition default_weights :: "(string, real) dict" where
  "default_weights =
     [(''spread'', 0.25), (''sum'', 0.25), (''frequency'', 0.25), (''recent'', 0.25)]"

text \<open>The set \<open>recent_numbers\<close>: empty unless \<open>recent_draws\<close> is given and non-empty.\<close>

definition recent_numbers_of :: "int list list option \<Rightarrow> int set" where
  "recent_numbers_of recent_draws =
     (if truthy recent_draws
      then fold (\<lambda>draw acc. acc \<union> set draw) (the recent_draws) {}
      else {})"

definition expected_sum_of :: "int \<Rightarrow> nat \<Rightarrow> real" where
  "expected_sum_of max_number k = (real_of_int max_number + 1) / 2 * real k"

text \<open>The four component scores, each as the source computes it from \<open>s_sorted\<close>.\<close>

definition spread_score_of :: "int \<Rightarrow> int list \<Rightarrow> py_error + real" where
  "spread_score_of max_number s_sorted =
     (if length s_sorted > 1
      then py_truediv (real_of_int (last s_sorted - hd s_sorted)) (real_of_int max_number)
      else Inr 0)"

definition sum_score_of :: "int \<Rightarrow> int list \<Rightarrow> py_error + real" where
  "sum_score_of max_number s_sorted =
     (let expected_sum = expected_sum_of max_number (length s_sorted)
      in bind (py_truediv \<bar>real_of_int (sum_list s_sorted) - expected_sum\<bar> expected_sum)
           (\<lambda>q. Inr (1 - q)))"

definition freq_score_of :: "(int, real) dict \<Rightarrow> int list \<Rightarrow> py_error + real" where
  "freq_score_of probs s_sorted =
     bind (lookup_all probs s_sorted)
       (\<lambda>ps. py_truediv (sum_list ps) (real (length s_sorted)))"

definition recent_score_of :: "int set \<Rightarrow> int list \<Rightarrow> py_error + real" where
  "recent_score_of recent_numbers s_sorted =
     (if recent_numbers \<noteq> {}
      then bind (py_truediv (real (card (set s_sorted \<inter> recent_numbers)))
                   (real (length s_sorted)))
             (\<lambda>overlap. Inr (1 - overlap))
      else Inr 1)"

text \<open>The weighted sum \<open>final\<close>; the four keys are looked up from left to right.\<close>

definition composite ::
  "(string, real) dict \<Rightarrow> real \<Rightarrow> real \<Rightarrow> real \<Rightarrow> real \<Rightarrow> py_error + real"
where
  "composite weights spread_score sum_score freq_score recent_score =
     bind (weight_lookup weights ''spread'') (\<lambda>w1.
     bind (weight_lookup weights ''sum'') (\<lambda>w2.
     bind (weight_lookup weights ''frequency'') (\<lambda>w3.
     bind (weight_lookup weights ''recent'') (\<lambda>w4.
       Inr (w1 * spread_score + w2 * sum_score + w3 * freq_score + w4 * recent_score)))))"

text \<open>The body of the loop over \<open>candidate_sets\<close>, in the order of the source.\<close>

definition score_one ::
  "scorer \<Rightarrow> int set \<Rightarrow> (string, real) dict \<Rightarrow> int list \<Rightarrow> py_error + scoring"
where
  "score_one s recent_numbers weights cand =
     (let s_sorted = sort cand;
          max_number = num_numbers s
      in bind (spread_score_of max_number s_sorted) (\<lambda>spread_score.
         bind (sum_score_of max_number s_sorted) (\<lambda>sum_score.
         bind (freq_score_of (probabilities s) s_sorted) (\<lambda>freq_score.
         bind (recent_score_of recent_numbers s_sorted) (\<lambda>recent_score.
         bind (composite weights spread_score sum_score freq_score recent_score) (\<lambda>final.
           Inr \<lparr>r_set = s_sorted, r_score = final,
                r_components = \<lparr>c_spread = spread_score, c_sum = sum_score,
                                 c_frequency = freq_score, c_recent = recent_score\<rparr>\<rparr>))))))"

fun score_loop ::
  "scorer \<Rightarrow> int set \<Rightarrow> (string, real) dict \<Rightarrow> int list list \<Rightarrow> py_error + scoring list"
where
  "score_loop s recent_numbers weights [] = Inr []"
| "score_loop s recent_numbers weights (cand # rest) =
     bind (score_one s recent_numbers weights cand) (\<lambda>r.
     bind (score_loop s recent_numbers weights rest) (\<lambda>rs. Inr (r # rs)))"

definition score_prediction_sets ::
  "scorer \<Rightarrow> int list list \<Rightarrow> int list list option \<Rightarrow> (string, real) dict option
     \<Rightarrow> py_error + scoring list"
where
  "score_prediction_sets s candidate_sets recent_draws weights_arg =
     (let weights = (case weights_arg of None \<Rightarrow> default_weights | Some w \<Rightarrow> w);
          recent_numbers = recent_numbers_of recent_draws
      in score_loop s recent_numbers weights candidate_sets)"

subsection \<open>Method calls on an object\<close>

datatype call =
    CalculateProbabilities "real option"
  | EnsembleProbabilities "(int, real) dict option" "(int, real) dict option"
  | Score "int list"
  | ScorePredictionSets "int list list" "int list list option" "(string, real) dict option"

datatype outcome =
    Mapping "py_error + (int, real) dict"
  | Number "py_error + real"
  | Records "py_error + scoring list"

text \<open>A call gives the object after the call and what the call returned or raised. Only
  \<open>calculate_probabilities\<close> assigns a field of \<open>self\<close>.\<close>

fun call_method :: "scorer \<Rightarrow> call \<Rightarrow> scorer \<times> outcome" where
  "call_method s (CalculateProbabilities sm) =
     (let (s', r) = calculate_probabilities s sm in (s', Mapping r))"
| "call_method s (EnsembleProbabilities tw ml) = (s, Mapping (ensemble_probabilities s tw ml))"
| "call_method s (Score number_set) = (s, Number (score s number_set))"
| "call_method s (ScorePredictionSets cands recent ws) =
     (s, Records (score_prediction_sets s cands recent ws))"

text \<open>The objects a program can hold: built by the constructor, then used through the
  methods.\<close>

inductive reachable :: "scorer \<Rightarrow> bool" where
  constructed: "init cfg draws sm = Inr s \<Longrightarrow> reachable s"
| called: "reachable s \<Longrightarrow> reachable (fst (call_method s c))"

subsection \<open>Notions used in the statements\<close>

text \<open>The weight \<open>value\<close> that the loop of \<open>calculate_probabilities\<close> gives number
  \<open>i\<close>.\<close>

definition weight :: "(int, int) dict \<Rightarrow> real \<Rightarrow> int \<Rightarrow> real" where
  "weight freqs sm i = (real_of_int (dict_get freqs i 0) + sm) * real_of_int (modifier i)"

text \<open>The stored probabilities are normalised: the keys are 1, ..., N in order, and the
  values sum to 1 unless there are none.\<close>

definition normalised :: "scorer \<Rightarrow> bool" where
  "normalised s \<longleftrightarrow>
     map fst (probabilities s) = [1..num_numbers s]
     \<and> (probabilities s = [] \<or> sum_list (map snd (probabilities s)) = 1)"

text \<open>An optional weighting dict that is omitted or gives 1.0 to every number of [1, n].\<close>

definition neutral :: "int \<Rightarrow> (int, real) dict option \<Rightarrow> bool" where
  "neutral n w = (case w of None \<Rightarrow> True | Some d \<Rightarrow> list_all (\<lambda>i. map_of d i = Some 1) [1..n])"

text \<open>The object after a sequence of method calls.\<close>

definition after_calls :: "scorer \<Rightarrow> call list \<Rightarrow> scorer" where
  "after_calls s cs = fold (\<lambda>c s'. fst (call_method s' c)) cs s"

text \<open>The numbers of [1, n] in a draw, in order.\<close>

definition in_range :: "int \<Rightarrow> int list \<Rightarrow> int list" where
  "in_range n draw = filter (\<lambda>x. 1 \<le> x \<and> x \<le> n) draw"

text \<open>The four keys that the composite score looks up, in the order of the source.\<close>

definition weight_keys :: "string list" where
  "weight_keys = [''spread'', ''sum'', ''frequency'', ''recent'']"

text \<open>The overlap fraction in the words of the specification: the fraction of the
  candidate set's numbers that appear in the union of the recent draws.\<close>

definition spec_overlap_fraction :: "int list \<Rightarrow> int list list \<Rightarrow> real" where
  "spec_overlap_fraction cand recent_draws =
     real (length (filter (\<lambda>n. n \<in> \<Union> (set ` set recent_draws)) cand)) / real (length cand)"

section \<open>Properties\<close>

subsection \<open>The scenario of the unit test\<close>

lemma scenario_b_value:
  "init [(''num_lotto_numbers'', 5)] [[1], [5]] (Some 0) =
     Inr \<lparr>config = [(''num_lotto_numbers'', 5)], num_numbers = 5,
          historical_draws = [[1], [5]], smoothing = 0,
          frequencies = [(1, 1), (2, 0), (3, 0), (4, 0), (5, 1)],
          probabilities = [(1, 1 / 6), (2, 0), (3, 0), (4, 0), (5, 5 / 6)]\<rparr>"
  by (simp add: init_def compute_frequencies_def counter_update_def upto_rec1
      calculate_probabilities_def dict_get_def dict_set_def modifier_def normalise_def)

text \<open>
  C2. With N = 5, draws [[1],[5]] and smoothing 0 the constructor succeeds, numbers 1 and 5
  both have frequency 1, and number 5 has a strictly larger probability than number 1.
\<close>

theorem scenario_b_modifier_breaks_tie:
  "\<exists>s p1 p5. init [(''num_lotto_numbers'', 5)] [[1], [5]] (Some 0) = Inr s
     \<and> map_of (frequencies s) 1 = Some 1 \<and> map_of (frequencies s) 5 = Some 1
     \<and> map_of (probabilities s) 1 = Some p1 \<and> map_of (probabilities s) 5 = Some p5
     \<and> p1 < p5"
proof -
  let ?s = "\<lparr>config = [(''num_lotto_numbers'', 5)], num_numbers = 5,
          historical_draws = [[1], [5]], smoothing = 0,
          frequencies = [(1, 1), (2, 0), (3, 0), (4, 0), (5, 1)],
          probabilities = [(1, 1 / 6), (2, 0), (3, 0), (4, 0), (5, 5 / 6 :: real)]\<rparr>"
  have "map_of (probabilities ?s) 1 = Some (1 / 6)" "map_of (probabilities ?s) 5 = Some (5 / 6)"
    "map_of (frequencies ?s) 1 = Some 1" "map_of (frequencies ?s) 5 = Some 1"
    "(1 / 6 :: real) < 5 / 6"
    by simp_all
  with scenario_b_value show ?thesis by blast
qed

subsection \<open>What the two loops compute\<close>

lemma get_counter_update:
  "(case counter_update m d i of None \<Rightarrow> 0 | Some c \<Rightarrow> c) = (case m i of None \<Rightarrow> 0 | Some c \<Rightarrow> c) + int (count_list d i)"
  unfolding counter_update_def
  by (induction d arbitrary: m) auto

lemma get_counts:
  "(case fold (\<lambda>draw c. counter_update c draw) draws m i of None \<Rightarrow> 0 | Some c \<Rightarrow> c)
     = (case m i of None \<Rightarrow> 0 | Some c \<Rightarrow> c) + int (count_list (concat draws) i)"
  by (induction draws arbitrary: m) (auto simp: get_counter_update)

lemma compute_frequencies_eq:
  "compute_frequencies n draws = map (\<lambda>i. (i, int (count_list (concat draws) i))) [1..n]"
  by (simp add: compute_frequencies_def get_counts)

lemma weigh_loop_eq:
  "distinct ks \<Longrightarrow> set ks \<inter> fst ` set w = {} \<Longrightarrow>
   weigh_loop freqs sm ks (w, t) =
     (w @ map (\<lambda>i. (i, weight freqs sm i)) ks, t + sum_list (map (weight freqs sm) ks))"
proof (induction ks arbitrary: w t)
  case Nil
  then show ?case by simp
next
  case (Cons k ks)
  have "AList.update k v w = w @ [(k, v)]" for v
    using Cons.prems(2) by (induction w) auto
  with Cons show ?case
    by (auto simp: dict_set_def Let_def weight_def)
qed

lemma weigh_loop_range:
  "weigh_loop freqs sm [1..n] ([], 0) =
     (map (\<lambda>i. (i, weight freqs sm i)) [1..n], sum_list (map (weight freqs sm) [1..n]))"
  using weigh_loop_eq [of "[1..n]" "[]" freqs sm 0] by simp

lemma sum_list_snd_div:
  "sum_list (map snd (map (\<lambda>(i, v). (i, v / t)) d)) = sum_list (map snd d) / (t::real)"
  by (induction d) (auto simp: add_divide_distrib)

lemma fst_map_div: "map fst (map (\<lambda>(i, v). (i, v / t)) d) = map fst d"
  by (induction d) auto

lemma normalise_Inr:
  assumes "normalise d (sum_list (map snd d)) = Inr p"
  shows "map fst p = map fst d \<and> (p = [] \<or> sum_list (map snd p) = 1)"
proof (cases "d = []")
  case True
  with assms show ?thesis by (simp add: normalise_def)
next
  case False
  let ?t = "sum_list (map snd d)"
  from False assms have t: "?t \<noteq> 0" and p: "p = map (\<lambda>(i, v). (i, v / ?t)) d"
    by (auto simp: normalise_def split: if_splits)
  have "sum_list (map snd p) = ?t / ?t"
    unfolding p by (rule sum_list_snd_div)
  with t have "sum_list (map snd p) = 1" by simp
  moreover have "map fst p = map fst d"
    unfolding p by (rule fst_map_div)
  ultimately show ?thesis by simp
qed

lemma calculate_probabilities_unfold:
  "calculate_probabilities s smo =
     (let sm = (case smo of None \<Rightarrow> smoothing s | Some x \<Rightarrow> x);
          w = map (\<lambda>i. (i, weight (frequencies s) sm i)) [1..num_numbers s]
      in case normalise w (sum_list (map snd w)) of
           Inl e \<Rightarrow> (s, Inl e)
         | Inr p \<Rightarrow> (s\<lparr>probabilities := p\<rparr>, Inr p))"
  by (simp add: calculate_probabilities_def weigh_loop_range Let_def comp_def)

lemma modifier_pos: "0 < modifier i" "modifier i \<le> 5"
  unfolding modifier_def by (auto intro: pos_mod_sign simp: less_le)

lemma dict_get_compute_frequencies:
  "dict_get (compute_frequencies n draws) i 0 =
     (if 1 \<le> i \<and> i \<le> n then int (count_list (concat draws) i) else 0)"
proof -
  have "map_of (map (\<lambda>i. (i, f i)) xs) i = (if i \<in> set xs then Some (f i) else None)" for f :: "int \<Rightarrow> int" and xs
    by (induction xs) auto
  then show ?thesis
    by (simp add: dict_get_def compute_frequencies_eq)
qed

lemma total_weight_pos:
  assumes "1 \<le> n" "0 \<le> sm"
    and "0 < sm \<or> (\<exists>x \<in> set (concat draws). 1 \<le> x \<and> x \<le> n)"
  shows "0 < sum_list (map (weight (compute_frequencies n draws) sm) [1..n])"
proof -
  let ?w = "weight (compute_frequencies n draws) sm"
  have nonneg: "0 \<le> ?w i" for i
    using assms(2) modifier_pos(1) [of i]
    by (simp add: weight_def dict_get_compute_frequencies)
  obtain j where j: "1 \<le> j" "j \<le> n" "0 < ?w j"
  proof (cases "0 < sm")
    case True
    then have "0 < ?w 1"
      using assms(1) modifier_pos(1) [of 1]
      by (simp add: weight_def dict_get_compute_frequencies add_pos_nonneg)
    with assms(1) that show ?thesis by blast
  next
    case False
    with assms(3) obtain x where x: "x \<in> set (concat draws)" "1 \<le> x" "x \<le> n" by blast
    then have "0 < count_list (concat draws) x"
      by (metis count_list_0_iff gr0I)
    then have "0 < ?w x"
      using assms(2) x modifier_pos(1) [of x]
      by (simp add: weight_def dict_get_compute_frequencies add_pos_nonneg)
    with x that show ?thesis by blast
  qed
  have "sum_list (map ?w [1..n]) = sum ?w {1..n}"
    using sum_set_upto_conv_sum_list_int [of ?w 1 n] by simp
  also have "0 < sum ?w {1..n}"
    by (rule sum_pos2 [of _ j]) (use j nonneg in auto)
  finally show ?thesis .
qed

subsection \<open>Normalisation\<close>

text \<open>
  C1. As stated (every N \<ge> 1, every draws, every smoothing \<ge> 0) the claim fails: with
  smoothing 0 and no number of [1, N] in the draws the total weight is 0 and the division
  raises. Here N = 1, no draws, smoothing 0: the constructor's own call of
  \<open>calculate_probabilities\<close> raises \<open>ZeroDivisionError\<close>.
\<close>

theorem zero_total_raises:
  "init [(''num_lotto_numbers'', 1)] [] (Some 0) = Inl ZeroDivisionError"
  by (simp add: init_def compute_frequencies_def calculate_probabilities_def
      dict_get_def dict_set_def modifier_def normalise_def)

text \<open>
  C1, amended. On an object with N \<ge> 1 whose frequencies are those of its draws, a call of
  \<open>calculate_probabilities\<close> whose smoothing (the argument, or the stored value when the
  argument is omitted) is \<ge> 0 returns and stores a mapping with keys 1, ..., N whose values
  sum to 1, provided the smoothing is positive or some number of [1, N] occurs in the draws.
\<close>

theorem calculate_probabilities_sums_to_one:
  assumes "frequencies s = compute_frequencies (num_numbers s) (historical_draws s)"
    and "1 \<le> num_numbers s"
    and "sm = (case smoothing_arg of None \<Rightarrow> smoothing s | Some x \<Rightarrow> x)"
    and "0 \<le> sm"
    and "0 < sm \<or> (\<exists>x \<in> set (concat (historical_draws s)). 1 \<le> x \<and> x \<le> num_numbers s)"
  shows "\<exists>p. calculate_probabilities s smoothing_arg = (s\<lparr>probabilities := p\<rparr>, Inr p)
           \<and> map fst p = [1..num_numbers s] \<and> sum_list (map snd p) = 1"
proof -
  let ?n = "num_numbers s"
  let ?w = "map (\<lambda>i. (i, weight (frequencies s) sm i)) [1..?n]"
  have snd_w: "map snd ?w = map (weight (frequencies s) sm) [1..?n]"
    by (simp add: comp_def)
  have fst_w: "map fst ?w = [1..?n]"
    by (simp add: comp_def)
  have "0 < sum_list (map (weight (compute_frequencies ?n (historical_draws s)) sm) [1..?n])"
    by (rule total_weight_pos) (use assms in auto)
  then have pos: "0 < sum_list (map snd ?w)"
    unfolding snd_w by (simp only: assms(1) [symmetric])
  have ne: "?w \<noteq> []"
    using assms(2) fst_w by (metis list.map_disc_iff upto_Nil not_less)
  obtain p where p: "normalise ?w (sum_list (map snd ?w)) = Inr p"
    using pos ne by (auto simp: normalise_def)
  from normalise_Inr [OF p] ne p have "map fst p = [1..?n]" "sum_list (map snd p) = 1"
    using fst_w by (auto simp: normalise_def split: if_splits)
  moreover have "calculate_probabilities s smoothing_arg = (s\<lparr>probabilities := p\<rparr>, Inr p)"
    using p by (simp add: calculate_probabilities_unfold assms(3) [symmetric] Let_def del: map_map)
  ultimately show ?thesis by blast
qed

theorem calculate_probabilities_sums_to_one_witness:
  "\<exists>p. calculate_probabilities
         \<lparr>config = [(''num_lotto_numbers'', 10)], num_numbers = 10,
          historical_draws = [[1, 2, 3], [3, 4, 5], [5, 5, 5]], smoothing = 1,
          frequencies = compute_frequencies 10 [[1, 2, 3], [3, 4, 5], [5, 5, 5]],
          probabilities = []\<rparr> None
        = (\<lparr>config = [(''num_lotto_numbers'', 10)], num_numbers = 10,
          historical_draws = [[1, 2, 3], [3, 4, 5], [5, 5, 5]], smoothing = 1,
          frequencies = compute_frequencies 10 [[1, 2, 3], [3, 4, 5], [5, 5, 5]],
          probabilities = p\<rparr>, Inr p)
      \<and> map fst p = [1..10] \<and> sum_list (map snd p) = 1"
  using calculate_probabilities_sums_to_one
    [of "\<lparr>config = [(''num_lotto_numbers'', 10)], num_numbers = 10,
          historical_draws = [[1, 2, 3], [3, 4, 5], [5, 5, 5]], smoothing = 1,
          frequencies = compute_frequencies 10 [[1, 2, 3], [3, 4, 5], [5, 5, 5]],
          probabilities = []\<rparr>" 1 None]
  by simp

subsection \<open>Objects built by the constructor and changed by the methods\<close>

lemma calculate_probabilities_cases:
  obtains e where "calculate_probabilities s sm = (s, Inl e)"
  | p where "calculate_probabilities s sm = (s\<lparr>probabilities := p\<rparr>, Inr p)"
      "map fst p = [1..num_numbers s]" "p = [] \<or> sum_list (map snd p) = 1"
proof -
  let ?sm = "case sm of None \<Rightarrow> smoothing s | Some x \<Rightarrow> x"
  let ?w = "map (\<lambda>i. (i, weight (frequencies s) ?sm i)) [1..num_numbers s]"
  show thesis
  proof (cases "normalise ?w (sum_list (map snd ?w))")
    case (Inl e)
    then have "calculate_probabilities s sm = (s, Inl e)"
      by (simp add: calculate_probabilities_unfold Let_def del: map_map)
    then show thesis by (rule that(1))
  next
    case (Inr p)
    then have "calculate_probabilities s sm = (s\<lparr>probabilities := p\<rparr>, Inr p)"
      by (simp add: calculate_probabilities_unfold Let_def del: map_map)
    moreover have "map fst ?w = [1..num_numbers s]"
      by (simp add: comp_def)
    ultimately show thesis
      using normalise_Inr [OF Inr] by (intro that(2)) auto
  qed
qed

lemma calculate_probabilities_frame:
  "fst (calculate_probabilities s sm) = s\<lparr>probabilities := probabilities (fst (calculate_probabilities s sm))\<rparr>"
  by (rule calculate_probabilities_cases [of s sm]) auto

lemma normalised_calculate_probabilities:
  "normalised s \<Longrightarrow> normalised (fst (calculate_probabilities s sm))"
  by (rule calculate_probabilities_cases [of s sm]) (auto simp: normalised_def)

lemma init_cases:
  assumes "init cfg draws sm = Inr s"
  obtains n p where "map_of cfg ''num_lotto_numbers'' = Some n"
    "calculate_probabilities
       \<lparr>config = cfg, num_numbers = n, historical_draws = draws,
        smoothing = (case sm of None \<Rightarrow> 1 | Some x \<Rightarrow> x),
        frequencies = compute_frequencies n draws, probabilities = []\<rparr> None
     = (s, Inr p)"
    "s = \<lparr>config = cfg, num_numbers = n, historical_draws = draws,
        smoothing = (case sm of None \<Rightarrow> 1 | Some x \<Rightarrow> x),
        frequencies = compute_frequencies n draws, probabilities = p\<rparr>"
    "map fst p = [1..n]" "p = [] \<or> sum_list (map snd p) = 1"
proof -
  from assms obtain n where n: "map_of cfg ''num_lotto_numbers'' = Some n"
    by (auto simp: init_def split: option.splits)
  let ?s0 = "\<lparr>config = cfg, num_numbers = n, historical_draws = draws,
        smoothing = (case sm of None \<Rightarrow> 1 | Some x \<Rightarrow> x),
        frequencies = compute_frequencies n draws, probabilities = []\<rparr>"
  show thesis
  proof (rule calculate_probabilities_cases [of ?s0 None])
    fix e assume "calculate_probabilities ?s0 None = (?s0, Inl e)"
    with assms n show thesis by (simp add: init_def)
  next
    fix p assume p: "calculate_probabilities ?s0 None = (?s0\<lparr>probabilities := p\<rparr>, Inr p)"
      "map fst p = [1..num_numbers ?s0]" "p = [] \<or> sum_list (map snd p) = 1"
    with assms n have "s = ?s0\<lparr>probabilities := p\<rparr>" by (simp add: init_def)
    with p n show thesis by (intro that [of n p]) simp_all
  qed
qed

lemma normalised_init: "init cfg draws sm = Inr s \<Longrightarrow> normalised s"
  by (erule init_cases) (simp add: normalised_def)

lemma fst_call_method:
  "fst (call_method s c) =
     (case c of CalculateProbabilities sm \<Rightarrow> fst (calculate_probabilities s sm) | _ \<Rightarrow> s)"
  by (cases c) (auto split: prod.splits)

lemma reachable_normalised: "reachable s \<Longrightarrow> normalised s"
proof (induction rule: reachable.induct)
  case (constructed cfg draws sm s)
  then show ?case by (rule normalised_init)
next
  case (called s c)
  then show ?case
    by (simp add: fst_call_method normalised_calculate_probabilities
        del: call_method.simps split: call.split)
qed

subsection \<open>Ensemble with neutral weights\<close>

lemma map_entry_same: "AList.map_entry k (\<lambda>v. v) c = c"
  by (induction c) auto

lemma ensemble_step_neutral:
  assumes "neutral n tw" "neutral n ml" "1 \<le> i" "i \<le> n"
  shows "ensemble_step tw ml i c = c"
proof -
  have "dict_get (the w) i 1 = 1" if "neutral n w" "truthy w" for w
    using that assms(3,4)
    by (auto simp: neutral_def truthy_def dict_get_def list_all_iff split: option.splits)
  with assms(1,2) show ?thesis
    by (simp add: ensemble_step_def map_entry_same)
qed

lemma fold_fixed: "(\<And>k c. k \<in> set ks \<Longrightarrow> f k c = c) \<Longrightarrow> fold f ks c = c"
  by (induction ks arbitrary: c) auto

lemma normalise_one: "normalise p 1 = Inr p"
  by (simp add: normalise_def map_idI split_def)

text \<open>
  C3. On every object that the constructor and the methods can produce, calling
  \<open>ensemble_probabilities\<close> with each of the two mappings either omitted or giving 1.0 to
  every number of [1, N] returns the stored probability mapping.
\<close>

theorem ensemble_neutral_is_identity:
  assumes "reachable s"
    and "neutral (num_numbers s) temporal_weights"
    and "neutral (num_numbers s) ml_predictions"
  shows "ensemble_probabilities s temporal_weights ml_predictions = Inr (probabilities s)"
proof -
  from assms(1) have n: "normalised s" by (rule reachable_normalised)
  have "fold (ensemble_step temporal_weights ml_predictions)
          (map fst (probabilities s)) (probabilities s) = probabilities s"
  proof (rule fold_fixed)
    fix k c assume "k \<in> set (map fst (probabilities s))"
    with n have "1 \<le> k" "k \<le> num_numbers s" by (auto simp: normalised_def)
    with assms(2,3) show "ensemble_step temporal_weights ml_predictions k c = c"
      by (rule ensemble_step_neutral)
  qed
  moreover have "normalise (probabilities s) (sum_list (map snd (probabilities s)))
                   = Inr (probabilities s)"
  proof (cases "probabilities s = []")
    case True
    then show ?thesis by (simp add: normalise_def)
  next
    case False
    with n show ?thesis by (simp add: normalised_def normalise_one)
  qed
  ultimately show ?thesis by (simp add: ensemble_probabilities_def)
qed

theorem ensemble_neutral_is_identity_witness:
  "ensemble_probabilities
     \<lparr>config = [(''num_lotto_numbers'', 5)], num_numbers = 5,
      historical_draws = [[1], [5]], smoothing = 0,
      frequencies = [(1, 1), (2, 0), (3, 0), (4, 0), (5, 1)],
      probabilities = [(1, 1 / 6), (2, 0), (3, 0), (4, 0), (5, 5 / 6)]\<rparr>
     None (Some [(1, 1), (2, 1), (3, 1), (4, 1), (5, 1), (6, 2)])
   = Inr [(1, 1 / 6), (2, 0), (3, 0), (4, 0), (5, 5 / 6)]"
  using ensemble_neutral_is_identity
    [OF constructed [OF scenario_b_value], of None "Some [(1, 1), (2, 1), (3, 1), (4, 1), (5, 1), (6, 2)]"]
  by (simp add: neutral_def upto_rec1)

subsection \<open>What the methods leave alone\<close>

lemma frequencies_call_method: "frequencies (fst (call_method s c)) = frequencies s"
proof (cases c)
  case (CalculateProbabilities sm)
  have "frequencies (fst (calculate_probabilities s sm)) = frequencies s"
    by (rule calculate_probabilities_cases [of s sm]) auto
  with CalculateProbabilities show ?thesis by (simp add: fst_call_method del: call_method.simps)
qed simp_all

text \<open>
  C6. No method call changes the stored frequencies: not one call of
  \<open>calculate_probabilities\<close> (with or without a smoothing argument),
  \<open>ensemble_probabilities\<close>, \<open>score\<close> or \<open>score_prediction_sets\<close>, and so not any
  sequence of them; and \<open>calculate_probabilities\<close> changes no field but
  \<open>probabilities\<close>.
\<close>

theorem frequencies_never_mutated:
  "frequencies (fst (call_method s c)) = frequencies s
   \<and> frequencies (after_calls s cs) = frequencies s
   \<and> fst (calculate_probabilities s sm)
       = s\<lparr>probabilities := probabilities (fst (calculate_probabilities s sm))\<rparr>"
proof -
  have "frequencies (after_calls s cs) = frequencies s"
    unfolding after_calls_def
    by (induction cs arbitrary: s) (simp_all add: frequencies_call_method del: call_method.simps)
  then show ?thesis
    using frequencies_call_method calculate_probabilities_frame by blast
qed

subsection \<open>What \<open>calculate_probabilities\<close> reads\<close>

lemma snd_calculate_probabilities_cong:
  assumes "num_numbers s = num_numbers t" "smoothing s = smoothing t"
    "frequencies s = frequencies t"
  shows "snd (calculate_probabilities s sm) = snd (calculate_probabilities t sm)"
proof -
  have "snd (calculate_probabilities u sm) =
          (let sm' = (case sm of None \<Rightarrow> smoothing u | Some x \<Rightarrow> x);
               w = map (\<lambda>i. (i, weight (frequencies u) sm' i)) [1..num_numbers u]
           in normalise w (sum_list (map snd w)))" for u
    by (simp add: calculate_probabilities_unfold Let_def split: sum.splits del: map_map)
  then show ?thesis by (simp only: assms)
qed

lemma fst_calculate_probabilities:
  "fst (calculate_probabilities s sm) =
     (case snd (calculate_probabilities s sm) of Inl e \<Rightarrow> s | Inr p \<Rightarrow> s\<lparr>probabilities := p\<rparr>)"
  by (rule calculate_probabilities_cases [of s sm]) auto

lemma init_unfold:
  "init cfg draws sm =
     (case map_of cfg ''num_lotto_numbers'' of
        None \<Rightarrow> Inl (KeyError (NameKey ''num_lotto_numbers''))
      | Some n \<Rightarrow>
          (case snd (calculate_probabilities
                 \<lparr>config = cfg, num_numbers = n, historical_draws = draws,
                  smoothing = (case sm of None \<Rightarrow> 1 | Some x \<Rightarrow> x),
                  frequencies = compute_frequencies n draws, probabilities = []\<rparr> None) of
             Inl e \<Rightarrow> Inl e
           | Inr p \<Rightarrow> Inr \<lparr>config = cfg, num_numbers = n, historical_draws = draws,
                  smoothing = (case sm of None \<Rightarrow> 1 | Some x \<Rightarrow> x),
                  frequencies = compute_frequencies n draws, probabilities = p\<rparr>))"
proof (cases "map_of cfg ''num_lotto_numbers''")
  case None
  then show ?thesis by (simp add: init_def)
next
  case (Some n)
  let ?s0 = "\<lparr>config = cfg, num_numbers = n, historical_draws = draws,
                  smoothing = (case sm of None \<Rightarrow> 1 | Some x \<Rightarrow> x),
                  frequencies = compute_frequencies n draws, probabilities = []\<rparr>"
  show ?thesis
    by (rule calculate_probabilities_cases [of ?s0 None]) (simp_all add: init_def Some)
qed

subsection \<open>The stored smoothing\<close>

text \<open>
  C8. A call of \<open>calculate_probabilities\<close> with a smoothing argument leaves the stored
  smoothing as it was, so the next call without an argument gives what such a call would
  have given before. On an object fresh from the constructor the stored smoothing is the
  constructor's, and the call without an argument brings back exactly the constructor's
  probabilities, whatever the override was.
\<close>

theorem override_keeps_stored_smoothing:
  assumes "init cfg draws smoothing_arg = Inr s"
  shows "smoothing (fst (calculate_probabilities s (Some x)))
           = (case smoothing_arg of None \<Rightarrow> 1 | Some v \<Rightarrow> v)
         \<and> calculate_probabilities (fst (calculate_probabilities s (Some x))) None
           = (s, Inr (probabilities s))"
proof -
  let ?s' = "fst (calculate_probabilities s (Some x))"
  from assms obtain n p where s0: "calculate_probabilities
       \<lparr>config = cfg, num_numbers = n, historical_draws = draws,
        smoothing = (case smoothing_arg of None \<Rightarrow> 1 | Some x \<Rightarrow> x),
        frequencies = compute_frequencies n draws, probabilities = []\<rparr> None
     = (s, Inr p)"
    and s: "s = \<lparr>config = cfg, num_numbers = n, historical_draws = draws,
        smoothing = (case smoothing_arg of None \<Rightarrow> 1 | Some x \<Rightarrow> x),
        frequencies = compute_frequencies n draws, probabilities = p\<rparr>"
    by (rule init_cases)
  have s': "?s' = s\<lparr>probabilities := probabilities ?s'\<rparr>"
    by (rule calculate_probabilities_frame)
  have sm: "smoothing ?s' = smoothing s"
    by (subst s') simp
  have "snd (calculate_probabilities ?s' None)
          = snd (calculate_probabilities \<lparr>config = cfg, num_numbers = n, historical_draws = draws,
        smoothing = (case smoothing_arg of None \<Rightarrow> 1 | Some x \<Rightarrow> x),
        frequencies = compute_frequencies n draws, probabilities = []\<rparr> None)"
    by (rule snd_calculate_probabilities_cong) (subst s', simp add: s)+
  then have r: "snd (calculate_probabilities ?s' None) = Inr p"
    by (simp add: s0)
  have "fst (calculate_probabilities ?s' None) = ?s'\<lparr>probabilities := p\<rparr>"
    by (simp add: fst_calculate_probabilities [of ?s' None] r)
  also have "\<dots> = s"
    by (subst s') (simp add: s)
  finally have "calculate_probabilities ?s' None = (s, Inr p)"
    using r by (simp add: prod_eq_iff)
  with sm show ?thesis by (simp add: s)
qed

theorem override_keeps_stored_smoothing_witness:
  "calculate_probabilities
     (fst (calculate_probabilities
        \<lparr>config = [(''num_lotto_numbers'', 5)], num_numbers = 5,
         historical_draws = [[1], [5]], smoothing = 0,
         frequencies = [(1, 1), (2, 0), (3, 0), (4, 0), (5, 1)],
         probabilities = [(1, 1 / 6), (2, 0), (3, 0), (4, 0), (5, 5 / 6)]\<rparr> (Some 1))) None
   = (\<lparr>config = [(''num_lotto_numbers'', 5)], num_numbers = 5,
         historical_draws = [[1], [5]], smoothing = 0,
         frequencies = [(1, 1), (2, 0), (3, 0), (4, 0), (5, 1)],
         probabilities = [(1, 1 / 6), (2, 0), (3, 0), (4, 0), (5, 5 / 6)]\<rparr>,
      Inr [(1, 1 / 6), (2, 0), (3, 0), (4, 0), (5, 5 / 6)])
   \<and> snd (calculate_probabilities
        \<lparr>config = [(''num_lotto_numbers'', 5)], num_numbers = 5,
         historical_draws = [[1], [5]], smoothing = 0,
         frequencies = [(1, 1), (2, 0), (3, 0), (4, 0), (5, 1)],
         probabilities = [(1, 1 / 6), (2, 0), (3, 0), (4, 0), (5, 5 / 6)]\<rparr> (Some 1))
     = Inr [(1, 2 / 21), (2, 2 / 21), (3, 3 / 21), (4, 4 / 21), (5, 10 / 21)]"
proof -
  have "snd (calculate_probabilities
        \<lparr>config = [(''num_lotto_numbers'', 5)], num_numbers = 5,
         historical_draws = [[1], [5]], smoothing = 0,
         frequencies = [(1, 1), (2, 0), (3, 0), (4, 0), (5, 1)],
         probabilities = [(1, 1 / 6), (2, 0), (3, 0), (4, 0), (5, 5 / 6)]\<rparr> (Some 1))
     = Inr [(1, 2 / 21), (2, 2 / 21), (3, 3 / 21), (4, 4 / 21), (5, 10 / 21)]"
    by (simp add: calculate_probabilities_def upto_rec1 dict_get_def dict_set_def
        modifier_def normalise_def)
  with override_keeps_stored_smoothing [OF scenario_b_value, of 1] show ?thesis
    by simp
qed

subsection \<open>Draw entries outside the range\<close>

lemma count_list_in_range:
  "1 \<le> i \<Longrightarrow> i \<le> n \<Longrightarrow>
   count_list (concat (map (in_range n) draws)) i = count_list (concat draws) i"
proof (induction draws)
  case Nil
  then show ?case by simp
next
  case (Cons d ds)
  have "count_list (filter P xs) i = count_list xs i" if "P i" for P and xs :: "int list"
    using that by (induction xs) auto
  with Cons show ?case by (simp add: in_range_def)
qed

lemma compute_frequencies_in_range:
  "compute_frequencies n (map (in_range n) draws) = compute_frequencies n draws"
  by (simp add: compute_frequencies_eq count_list_in_range)

lemma keys_compute_frequencies: "map fst (compute_frequencies n draws) = [1..n]"
  by (simp add: compute_frequencies_eq comp_def)

text \<open>
  C9. On a constructed object the keys of the frequencies are exactly 1, ..., N, and draw
  entries outside [1, N] have no effect: any other historical draws that agree with the
  given ones once the entries outside [1, N] are dropped lead to the same frequencies and
  the same probabilities.
\<close>

theorem out_of_range_draws_ignored:
  assumes "init cfg draws sm = Inr s"
    and "map (in_range (num_numbers s)) draws' = map (in_range (num_numbers s)) draws"
  shows "map fst (frequencies s) = [1..num_numbers s]
         \<and> fst ` set (frequencies s) = {1..num_numbers s}
         \<and> (\<exists>s'. init cfg draws' sm = Inr s' \<and> frequencies s' = frequencies s
                \<and> probabilities s' = probabilities s)"
proof -
  from assms(1) obtain n p where n: "map_of cfg ''num_lotto_numbers'' = Some n"
    and s0: "calculate_probabilities
       \<lparr>config = cfg, num_numbers = n, historical_draws = draws,
        smoothing = (case sm of None \<Rightarrow> 1 | Some x \<Rightarrow> x),
        frequencies = compute_frequencies n draws, probabilities = []\<rparr> None
     = (s, Inr p)"
    and s: "s = \<lparr>config = cfg, num_numbers = n, historical_draws = draws,
        smoothing = (case sm of None \<Rightarrow> 1 | Some x \<Rightarrow> x),
        frequencies = compute_frequencies n draws, probabilities = p\<rparr>"
    by (rule init_cases)
  have keys: "map fst (frequencies s) = [1..num_numbers s]"
    by (simp add: s keys_compute_frequencies)
  then have "set (map fst (frequencies s)) = set [1..num_numbers s]"
    by (rule arg_cong)
  then have dom: "fst ` set (frequencies s) = {1..num_numbers s}"
    by simp
  from assms(2) have "map (in_range n) draws' = map (in_range n) draws"
    by (simp add: s)
  then have "compute_frequencies n (map (in_range n) draws')
               = compute_frequencies n (map (in_range n) draws)"
    by (rule arg_cong)
  then have f: "compute_frequencies n draws' = compute_frequencies n draws"
    by (simp only: compute_frequencies_in_range)
  have "snd (calculate_probabilities
       \<lparr>config = cfg, num_numbers = n, historical_draws = draws',
        smoothing = (case sm of None \<Rightarrow> 1 | Some x \<Rightarrow> x),
        frequencies = compute_frequencies n draws', probabilities = []\<rparr> None)
     = snd (calculate_probabilities
       \<lparr>config = cfg, num_numbers = n, historical_draws = draws,
        smoothing = (case sm of None \<Rightarrow> 1 | Some x \<Rightarrow> x),
        frequencies = compute_frequencies n draws, probabilities = []\<rparr> None)"
    by (rule snd_calculate_probabilities_cong) (simp_all add: f)
  also have "\<dots> = Inr p"
    by (simp add: s0)
  finally have "init cfg draws' sm =
      Inr \<lparr>config = cfg, num_numbers = n, historical_draws = draws',
        smoothing = (case sm of None \<Rightarrow> 1 | Some x \<Rightarrow> x),
        frequencies = compute_frequencies n draws', probabilities = p\<rparr>"
    by (simp add: init_unfold n)
  with keys dom show ?thesis
    by (simp add: s f)
qed

theorem out_of_range_draws_ignored_witness:
  "\<exists>s'. init [(''num_lotto_numbers'', 5)] [[1, 7], [0, 5, -3]] (Some 0) = Inr s'
     \<and> frequencies s' = [(1, 1), (2, 0), (3, 0), (4, 0), (5, 1)]
     \<and> probabilities s' = [(1, 1 / 6), (2, 0), (3, 0), (4, 0), (5, 5 / 6)]"
  using out_of_range_draws_ignored [OF scenario_b_value, of "[[1, 7], [0, 5, -3]]"]
  by (simp add: in_range_def)

subsection \<open>Scoring: how failures propagate\<close>

lemma bind_Inl: "bind (Inl e) f = Inl e"
  by (simp add: bind_def)

lemma bind_Inr: "bind (Inr x) f = f x"
  by (simp add: bind_def)

lemma bind_eq_Inr: "bind m f = Inr y \<longleftrightarrow> (\<exists>x. m = Inr x \<and> f x = Inr y)"
  by (cases m) (simp_all add: bind_def)

lemma score_loop_append:
  "score_loop s rn w (xs @ ys) =
     bind (score_loop s rn w xs) (\<lambda>rs. bind (score_loop s rn w ys) (\<lambda>rs'. Inr (rs @ rs')))"
proof (induction xs)
  case Nil
  show ?case by (cases "score_loop s rn w ys") (simp_all add: bind_def)
next
  case (Cons x xs)
  show ?case
    by (cases "score_one s rn w x"; cases "score_loop s rn w xs"; cases "score_loop s rn w ys")
      (simp_all add: Cons bind_def)
qed

lemma score_one_empty: "score_one s rn w [] = Inl ZeroDivisionError"
  by (simp add: score_one_def spread_score_of_def sum_score_of_def expected_sum_of_def
      py_truediv_def bind_def)

text \<open>
  C7. As stated the claim fails for \<open>score\<close>: on the empty set it raises the
  \<open>StatisticsError\<close> of \<open>statistics.mean\<close>, which is not a division by zero.
\<close>

theorem score_empty_not_zero_division:
  "score \<lparr>config = [(''num_lotto_numbers'', 5)], num_numbers = 5,
          historical_draws = [[1], [5]], smoothing = 0,
          frequencies = [(1, 1), (2, 0), (3, 0), (4, 0), (5, 1)],
          probabilities = [(1, 1 / 6), (2, 0), (3, 0), (4, 0), (5, 5 / 6)]\<rparr> []
   \<noteq> Inl ZeroDivisionError"
  by (simp add: score_def mean_def bind_def)

text \<open>
  C7, amended. On the empty candidate set \<open>score\<close> raises \<open>StatisticsError\<close>. A call of
  \<open>score_prediction_sets\<close> whose candidates contain an empty set produces no records: it
  raises what an earlier candidate raises, if one does, and otherwise the
  \<open>ZeroDivisionError\<close> of the sum-balance division at the empty set.
\<close>

theorem empty_candidate_set_fails:
  "score s [] = Inl StatisticsError
   \<and> score_prediction_sets s (pre @ [] # post) recent_draws ws
       = (case score_prediction_sets s pre recent_draws ws of
            Inl e \<Rightarrow> Inl e
          | Inr rs \<Rightarrow> Inl ZeroDivisionError)"
  by (simp add: score_def mean_def bind_def score_prediction_sets_def score_loop_append
      score_one_empty split: sum.splits)

subsection \<open>Scoring: the component weights\<close>

lemma composite_missing:
  assumes "k \<in> set weight_keys" "map_of w k = None"
  obtains k' where "k' \<in> set weight_keys" "map_of w k' = None"
    "\<forall>a b c d. composite w a b c d = Inl (KeyError (NameKey k'))"
proof (cases "map_of w ''spread''")
  case None
  then show thesis
    by (intro that [of "''spread''"]) (simp_all add: weight_keys_def composite_def weight_lookup_def bind_def)
next
  case s1: (Some w1)
  show thesis
  proof (cases "map_of w ''sum''")
    case None
    with s1 show thesis
      by (intro that [of "''sum''"]) (simp_all add: weight_keys_def composite_def weight_lookup_def bind_def)
  next
    case s2: (Some w2)
    show thesis
    proof (cases "map_of w ''frequency''")
      case None
      with s1 s2 show thesis
        by (intro that [of "''frequency''"])
          (simp_all add: weight_keys_def composite_def weight_lookup_def bind_def)
    next
      case s3: (Some w3)
      with s1 s2 assms have "map_of w ''recent'' = None"
        by (auto simp: weight_keys_def)
      with s1 s2 s3 show thesis
        by (intro that [of "''recent''"])
          (simp_all add: weight_keys_def composite_def weight_lookup_def bind_def)
    qed
  qed
qed

lemma score_one_components:
  assumes "score_one s rn w cand = Inr r"
  shows "r_set r = sort cand"
    and "spread_score_of (num_numbers s) (sort cand) = Inr (c_spread (r_components r))"
    and "sum_score_of (num_numbers s) (sort cand) = Inr (c_sum (r_components r))"
    and "freq_score_of (probabilities s) (sort cand) = Inr (c_frequency (r_components r))"
    and "recent_score_of rn (sort cand) = Inr (c_recent (r_components r))"
    and "composite w (c_spread (r_components r)) (c_sum (r_components r))
           (c_frequency (r_components r)) (c_recent (r_components r)) = Inr (r_score r)"
  using assms by (auto simp: score_one_def Let_def bind_eq_Inr)

lemma score_one_weights_only:
  assumes "score_one s rn w cand = Inr r"
  shows "score_one s rn w' cand =
     bind (composite w' (c_spread (r_components r)) (c_sum (r_components r))
            (c_frequency (r_components r)) (c_recent (r_components r)))
       (\<lambda>final. Inr (r\<lparr>r_score := final\<rparr>))"
  using assms by (auto simp: score_one_def Let_def bind_eq_Inr bind_Inr)

text \<open>
  C10. If the supplied weights lack one of the four keys, the composite computation raises
  \<open>KeyError\<close> for a missing key whatever the four component scores are; so a call whose
  first candidate set has its four component scores computed (it scores under the default
  weights) raises that \<open>KeyError\<close>. The default weights stand in for an omitted argument
  only: omitting the argument is the same as passing the default weights.
\<close>

theorem missing_weight_key_raises:
  assumes "k \<in> set weight_keys" and "map_of w k = None"
    and "score_prediction_sets s [cand] recent_draws None = Inr [r]"
  shows "(\<exists>k' \<in> set weight_keys. map_of w k' = None
            \<and> composite w a b c d = Inl (KeyError (NameKey k'))
            \<and> score_prediction_sets s (cand # rest) recent_draws (Some w)
                = Inl (KeyError (NameKey k')))
         \<and> score_prediction_sets s cands recent_draws None
             = score_prediction_sets s cands recent_draws (Some default_weights)"
proof -
  from assms(1,2) obtain k' where k': "k' \<in> set weight_keys" "map_of w k' = None"
    "\<forall>a b c d. composite w a b c d = Inl (KeyError (NameKey k'))"
    by (rule composite_missing)
  from assms(3) have "score_one s (recent_numbers_of recent_draws) default_weights cand = Inr r"
    by (auto simp: score_prediction_sets_def bind_eq_Inr)
  then have "score_one s (recent_numbers_of recent_draws) w cand = Inl (KeyError (NameKey k'))"
    by (simp add: score_one_weights_only [where w' = w] k'(3) bind_Inl)
  then have "score_prediction_sets s (cand # rest) recent_draws (Some w)
               = Inl (KeyError (NameKey k'))"
    by (simp add: score_prediction_sets_def bind_Inl)
  with k' show ?thesis
    by (auto simp: score_prediction_sets_def)
qed

theorem missing_weight_key_raises_witness:
  "score_prediction_sets
     \<lparr>config = [(''num_lotto_numbers'', 5)], num_numbers = 5,
      historical_draws = [[1], [5]], smoothing = 0,
      frequencies = [(1, 1), (2, 0), (3, 0), (4, 0), (5, 1)],
      probabilities = [(1, 1 / 6), (2, 0), (3, 0), (4, 0), (5, 5 / 6)]\<rparr>
     [[5, 1, 2], [3]] (Some [[1, 2]]) (Some [(''spread'', 1), (''sum'', 1), (''recent'', 1)])
   = Inl (KeyError (NameKey ''frequency''))"
proof -
  let ?s = "\<lparr>config = [(''num_lotto_numbers'', 5)], num_numbers = 5,
      historical_draws = [[1], [5]], smoothing = 0,
      frequencies = [(1, 1), (2, 0), (3, 0), (4, 0), (5, 1)],
      probabilities = [(1, 1 / 6), (2, 0), (3, 0), (4, 0), (5, 5 / 6 :: real)]\<rparr>"
  let ?w = "[(''spread'', 1), (''sum'', 1), (''recent'', 1 :: real)]"
  have ok: "score_prediction_sets ?s [[5, 1, 2]] (Some [[1, 2]]) None
      = Inr [\<lparr>r_set = [1, 2, 5], r_score = 53 / 90,
              r_components = \<lparr>c_spread = 4 / 5, c_sum = 8 / 9, c_frequency = 1 / 3,
                               c_recent = 1 / 3\<rparr>\<rparr>]"
    by (simp add: score_prediction_sets_def score_one_def bind_def truthy_def
        recent_numbers_of_def spread_score_of_def sum_score_of_def freq_score_of_def
        recent_score_of_def composite_def py_truediv_def expected_sum_of_def prob_lookup_def
        weight_lookup_def default_weights_def)
  have k: "''frequency'' \<in> set weight_keys" "map_of ?w ''frequency'' = None"
    by (simp_all add: weight_keys_def)
  from missing_weight_key_raises [OF k ok, of 0 0 0 0 "[[3]]" "[]"]
  show ?thesis
    by (auto simp: weight_keys_def)
qed

subsection \<open>Scoring: the records\<close>

lemma score_loop_nth:
  assumes "score_loop s rn w cands = Inr rs"
  shows "length rs = length cands \<and> (\<forall>i < length cands. score_one s rn w (cands ! i) = Inr (rs ! i))"
  using assms
proof (induction cands arbitrary: rs)
  case Nil
  then show ?case by simp
next
  case (Cons c cs)
  from Cons.prems obtain r rs' where r: "score_one s rn w c = Inr r"
    and rs': "score_loop s rn w cs = Inr rs'" and rs: "rs = r # rs'"
    by (auto simp: bind_eq_Inr)
  from Cons.IH [OF rs'] r rs show ?case
    by (auto simp: nth_Cons split: nat.splits)
qed

lemma score_prediction_sets_nth:
  assumes "score_prediction_sets s cands recent_draws ws = Inr rs" "i < length cands"
  shows "score_one s (recent_numbers_of recent_draws)
           (case ws of None \<Rightarrow> default_weights | Some w \<Rightarrow> w) (cands ! i) = Inr (rs ! i)"
  using score_loop_nth [of s "recent_numbers_of recent_draws"
      "case ws of None \<Rightarrow> default_weights | Some w \<Rightarrow> w" cands rs] assms
  by (simp add: score_prediction_sets_def)

lemma recent_numbers_of_eq:
  "recent_numbers_of recent_draws =
     (case recent_draws of None \<Rightarrow> {} | Some ds \<Rightarrow> \<Union> (set ` set ds))"
proof -
  have "fold (\<lambda>draw acc. acc \<union> set draw) ds a = a \<union> \<Union> (set ` set ds)" for ds and a :: "int set"
    by (induction ds arbitrary: a) auto
  then show ?thesis
    by (auto simp: recent_numbers_of_def truthy_def split: option.splits)
qed

lemma recent_score_of_Inr:
  assumes "recent_score_of rn xs = Inr v"
  shows "v = 1 - real (card (set xs \<inter> rn)) / real (length xs)"
  using assms
  by (auto simp: recent_score_of_def py_truediv_def bind_def split: if_splits)

lemma card_inter_distinct:
  "distinct xs \<Longrightarrow> card (set xs \<inter> A) = length (filter (\<lambda>n. n \<in> A) xs)"
proof -
  assume "distinct xs"
  then have "distinct (filter (\<lambda>n. n \<in> A) xs)" by simp
  then have "card (set (filter (\<lambda>n. n \<in> A) xs)) = length (filter (\<lambda>n. n \<in> A) xs)"
    by (rule distinct_card)
  moreover have "set (filter (\<lambda>n. n \<in> A) xs) = set xs \<inter> A" by auto
  ultimately show ?thesis by simp
qed

text \<open>
  C4. In every record that \<open>score_prediction_sets\<close> returns for a candidate set of
  distinct numbers, the recency score is 1.0 when no recent draws are given, and otherwise
  1 minus the fraction of the set's numbers that appear in the union of the recent draws.
  (A record is returned for non-empty sets only.)
\<close>

theorem recency_score:
  assumes "score_prediction_sets s cands recent_draws ws = Inr rs"
    and "i < length cands" and "distinct (cands ! i)"
  shows "cands ! i \<noteq> []
         \<and> c_recent (r_components (rs ! i))
             = (case recent_draws of
                  None \<Rightarrow> 1
                | Some ds \<Rightarrow> 1 - spec_overlap_fraction (cands ! i) ds)"
proof -
  let ?c = "cands ! i"
  let ?w = "case ws of None \<Rightarrow> default_weights | Some w \<Rightarrow> w"
  from assms(1,2) have one: "score_one s (recent_numbers_of recent_draws) ?w ?c = Inr (rs ! i)"
    by (rule score_prediction_sets_nth)
  then have ne: "?c \<noteq> []"
    using score_one_empty [of s "recent_numbers_of recent_draws" ?w] by auto
  from one have "recent_score_of (recent_numbers_of recent_draws) (sort ?c)
                   = Inr (c_recent (r_components (rs ! i)))"
    by (rule score_one_components)
  then have "c_recent (r_components (rs ! i))
      = 1 - real (card (set ?c \<inter> recent_numbers_of recent_draws)) / real (length ?c)"
    using recent_score_of_Inr by fastforce
  with assms(3) ne show ?thesis
    by (simp add: recent_numbers_of_eq card_inter_distinct spec_overlap_fraction_def
        split: option.splits)
qed

theorem recency_score_witness:
  "c_recent (r_components
     (projr (score_prediction_sets
        \<lparr>config = [(''num_lotto_numbers'', 5)], num_numbers = 5,
         historical_draws = [[1], [5]], smoothing = 0,
         frequencies = [(1, 1), (2, 0), (3, 0), (4, 0), (5, 1)],
         probabilities = [(1, 1 / 6), (2, 0), (3, 0), (4, 0), (5, 5 / 6)]\<rparr>
        [[5, 1, 2]] (Some [[1, 2]]) None) ! 0))
   = 1 - spec_overlap_fraction [5, 1, 2] [[1, 2]]
   \<and> spec_overlap_fraction [5, 1, 2] [[1, 2]] = 2 / 3"
proof -
  let ?s = "\<lparr>config = [(''num_lotto_numbers'', 5)], num_numbers = 5,
      historical_draws = [[1], [5]], smoothing = 0,
      frequencies = [(1, 1), (2, 0), (3, 0), (4, 0), (5, 1)],
      probabilities = [(1, 1 / 6), (2, 0), (3, 0), (4, 0), (5, 5 / 6 :: real)]\<rparr>"
  have ok: "score_prediction_sets ?s [[5, 1, 2]] (Some [[1, 2]]) None
      = Inr [\<lparr>r_set = [1, 2, 5], r_score = 53 / 90,
              r_components = \<lparr>c_spread = 4 / 5, c_sum = 8 / 9, c_frequency = 1 / 3,
                               c_recent = 1 / 3\<rparr>\<rparr>]"
    by (simp add: score_prediction_sets_def score_one_def bind_def truthy_def
        recent_numbers_of_def spread_score_of_def sum_score_of_def freq_score_of_def
        recent_score_of_def composite_def py_truediv_def expected_sum_of_def prob_lookup_def
        weight_lookup_def default_weights_def)
  have "spec_overlap_fraction [5, 1, 2] [[1, 2]] = 2 / 3"
    by (simp add: spec_overlap_fraction_def)
  with recency_score [OF ok, of 0] show ?thesis
    by (simp add: ok)
qed

subsection \<open>Scoring: the sum balance\<close>

lemma sum_list_insort: "sum_list (insort x xs) = x + sum_list (xs :: int list)"
  by (induction xs) auto

lemma sum_list_sort: "sum_list (sort xs) = sum_list (xs :: int list)"
  by (induction xs) (simp_all add: sum_list_insort)

lemma expected_sum_pos: "1 \<le> n \<Longrightarrow> cand \<noteq> [] \<Longrightarrow> 0 < expected_sum_of n (length cand)"
  by (simp add: expected_sum_of_def)

text \<open>
  C5. For a non-empty candidate set of size k and N \<ge> 1, with
  \<open>expected_sum = (N + 1) / 2 * k\<close>, the sum-balance score that the code computes is
  \<open>1 - |actual_sum - expected_sum| / expected_sum\<close>; it is 1 when the actual sum equals the
  expected sum, and negative when the actual sum deviates by more than the expected sum.
  It is the value stored in every record returned for that candidate set.
\<close>

theorem sum_balance_score:
  assumes "cand \<noteq> []" and "1 \<le> num_numbers s"
  shows "expected_sum_of (num_numbers s) (length cand)
           = (real_of_int (num_numbers s) + 1) / 2 * real (length cand)
    \<and> sum_score_of (num_numbers s) (sort cand)
        = Inr (1 - \<bar>real_of_int (sum_list cand) - expected_sum_of (num_numbers s) (length cand)\<bar>
                     / expected_sum_of (num_numbers s) (length cand))
    \<and> (real_of_int (sum_list cand) = expected_sum_of (num_numbers s) (length cand)
         \<longrightarrow> sum_score_of (num_numbers s) (sort cand) = Inr 1)
    \<and> (expected_sum_of (num_numbers s) (length cand)
          < \<bar>real_of_int (sum_list cand) - expected_sum_of (num_numbers s) (length cand)\<bar>
         \<longrightarrow> (\<exists>v < 0. sum_score_of (num_numbers s) (sort cand) = Inr v))
    \<and> (\<forall>cands recent_draws ws rs i.
          score_prediction_sets s cands recent_draws ws = Inr rs \<and> i < length cands
            \<and> cands ! i = cand
          \<longrightarrow> c_sum (r_components (rs ! i))
                = 1 - \<bar>real_of_int (sum_list cand) - expected_sum_of (num_numbers s) (length cand)\<bar>
                        / expected_sum_of (num_numbers s) (length cand))"
proof -
  let ?E = "expected_sum_of (num_numbers s) (length cand)"
  let ?S = "real_of_int (sum_list cand)"
  from assms have pos: "0 < ?E" by (simp add: expected_sum_pos)
  then have val: "sum_score_of (num_numbers s) (sort cand) = Inr (1 - \<bar>?S - ?E\<bar> / ?E)"
    by (simp add: sum_score_of_def py_truediv_def bind_def sum_list_sort Let_def)
  have neg: "1 - \<bar>?S - ?E\<bar> / ?E < 0" if "?E < \<bar>?S - ?E\<bar>"
    using that pos by (simp add: field_simps)
  have rec: "c_sum (r_components (rs ! i)) = 1 - \<bar>?S - ?E\<bar> / ?E"
    if "score_prediction_sets s cands recent_draws ws = Inr rs" "i < length cands"
      "cands ! i = cand" for cands recent_draws ws rs i
  proof -
    from that(1,2) have "score_one s (recent_numbers_of recent_draws)
        (case ws of None \<Rightarrow> default_weights | Some w \<Rightarrow> w) (cands ! i) = Inr (rs ! i)"
      by (rule score_prediction_sets_nth)
    then have "sum_score_of (num_numbers s) (sort (cands ! i))
                 = Inr (c_sum (r_components (rs ! i)))"
      by (rule score_one_components)
    with val that(3) show ?thesis by simp
  qed
  have "?E = (real_of_int (num_numbers s) + 1) / 2 * real (length cand)"
    by (simp add: expected_sum_of_def)
  moreover note val
  moreover have "?S = ?E \<longrightarrow> sum_score_of (num_numbers s) (sort cand) = Inr 1"
    using val by simp
  moreover have "?E < \<bar>?S - ?E\<bar> \<longrightarrow> (\<exists>v < 0. sum_score_of (num_numbers s) (sort cand) = Inr v)"
    using val neg by blast
  ultimately show ?thesis using rec by blast
qed

theorem sum_balance_score_witness:
  "sum_score_of 5 (sort [5, 1]) = Inr 1
   \<and> sum_score_of 10 (sort [40]) = Inr (- (58 / 11))
   \<and> c_sum (r_components
       (projr (score_prediction_sets
          \<lparr>config = [(''num_lotto_numbers'', 5)], num_numbers = 5,
           historical_draws = [[1], [5]], smoothing = 0,
           frequencies = [(1, 1), (2, 0), (3, 0), (4, 0), (5, 1)],
           probabilities = [(1, 1 / 6), (2, 0), (3, 0), (4, 0), (5, 5 / 6)]\<rparr>
          [[5, 1, 2]] (Some [[1, 2]]) None) ! 0))
     = 8 / 9"
proof -
  let ?s = "\<lparr>config = [(''num_lotto_numbers'', 5)], num_numbers = 5,
      historical_draws = [[1], [5]], smoothing = 0,
      frequencies = [(1, 1), (2, 0), (3, 0), (4, 0), (5, 1)],
      probabilities = [(1, 1 / 6), (2, 0), (3, 0), (4, 0), (5, 5 / 6 :: real)]\<rparr>"
  let ?t = "?s\<lparr>num_numbers := 10\<rparr>"
  have ok: "score_prediction_sets ?s [[5, 1, 2]] (Some [[1, 2]]) None
      = Inr [\<lparr>r_set = [1, 2, 5], r_score = 53 / 90,
              r_components = \<lparr>c_spread = 4 / 5, c_sum = 8 / 9, c_frequency = 1 / 3,
                               c_recent = 1 / 3\<rparr>\<rparr>]"
    by (simp add: score_prediction_sets_def score_one_def bind_def truthy_def
        recent_numbers_of_def spread_score_of_def sum_score_of_def freq_score_of_def
        recent_score_of_def composite_def py_truediv_def expected_sum_of_def prob_lookup_def
        weight_lookup_def default_weights_def)
  have "sum_score_of 5 (sort [5, 1]) = Inr 1"
    using sum_balance_score [of "[5, 1]" ?s] by (simp add: expected_sum_of_def)
  moreover have "sum_score_of 10 (sort [40]) = Inr (- (58 / 11))"
    using sum_balance_score [of "[40]" ?t] by (simp add: expected_sum_of_def)
  moreover have "c_sum (r_components (projr (score_prediction_sets ?s [[5, 1, 2]] (Some [[1, 2]]) None) ! 0)) = 8 / 9"
    using sum_balance_score [of "[5, 1, 2]" ?s] ok by (simp add: expected_sum_of_def)
  ultimately show ?thesis by simp
qed

subsection \<open>Scoring: what a returned record can hold\<close>

text \<open>A remark on C5: on an object built by the constructor, a record is returned only
  for candidate numbers that are keys of the stored probabilities, that is numbers of
  [1, N]; their sum never deviates by the expected sum or more, so the sum score of a
  returned record lies in (0, 1]. The negative values belong to candidate sets for which
  the frequency score, computed next, raises \<open>KeyError\<close>.\<close>

lemma lookup_all_keys:
  "lookup_all d ns = Inr vs \<Longrightarrow> set ns \<subseteq> fst ` set d"
proof (induction ns arbitrary: vs)
  case Nil
  then show ?case by simp
next
  case (Cons n ns)
  from Cons.prems obtain v vs' where "prob_lookup d n = Inr v" "lookup_all d ns = Inr vs'"
    by (auto simp: bind_eq_Inr)
  with Cons.IH show ?case
    by (auto simp: prob_lookup_def split: option.splits dest: map_of_SomeD intro: rev_image_eqI)
qed

lemma sum_list_bounds:
  "\<forall>x \<in> set xs. 1 \<le> x \<and> x \<le> n \<Longrightarrow>
   int (length xs) \<le> sum_list xs \<and> sum_list xs \<le> n * int (length xs)"
  by (induction xs) (auto simp: algebra_simps)

lemma returned_sum_score_range:
  assumes "reachable s" "score_prediction_sets s cands recent_draws ws = Inr rs"
    "i < length cands"
  shows "0 < c_sum (r_components (rs ! i)) \<and> c_sum (r_components (rs ! i)) \<le> 1"
proof -
  let ?c = "cands ! i"
  let ?n = "num_numbers s"
  let ?w = "case ws of None \<Rightarrow> default_weights | Some w \<Rightarrow> w"
  from assms(2,3) have one: "score_one s (recent_numbers_of recent_draws) ?w ?c = Inr (rs ! i)"
    by (rule score_prediction_sets_nth)
  then have ne: "?c \<noteq> []"
    using score_one_empty [of s "recent_numbers_of recent_draws" ?w] by auto
  from one have "freq_score_of (probabilities s) (sort ?c)
                   = Inr (c_frequency (r_components (rs ! i)))"
    by (rule score_one_components)
  then obtain vs where "lookup_all (probabilities s) (sort ?c) = Inr vs"
    by (auto simp: freq_score_of_def bind_eq_Inr)
  then have "set (sort ?c) \<subseteq> fst ` set (probabilities s)"
    by (rule lookup_all_keys)
  moreover from assms(1) have "map fst (probabilities s) = [1..?n]"
    using reachable_normalised by (simp add: normalised_def)
  then have "fst ` set (probabilities s) = {1..?n}"
    by (metis set_map set_upto)
  ultimately have rng: "\<forall>x \<in> set ?c. 1 \<le> x \<and> x \<le> ?n"
    by auto
  with ne have n1: "1 \<le> ?n"
    by (cases ?c) auto
  let ?k = "real (length ?c)"
  let ?E = "expected_sum_of ?n (length ?c)"
  let ?S = "real_of_int (sum_list ?c)"
  from ne have k: "0 < ?k" by simp
  from sum_list_bounds [OF rng] have "?k \<le> ?S" "?S \<le> real_of_int ?n * ?k"
    by (metis of_int_le_iff of_int_of_nat_eq, metis of_int_le_iff of_int_mult of_int_of_nat_eq)
  then have "\<bar>?S - ?E\<bar> \<le> (real_of_int ?n - 1) / 2 * ?k"
    by (simp add: expected_sum_of_def abs_le_iff field_simps)
  also have "\<dots> < ?E"
    using k by (simp add: expected_sum_of_def field_simps)
  finally have lt: "\<bar>?S - ?E\<bar> < ?E" .
  then have pos: "0 < ?E" by linarith
  from one have "sum_score_of ?n (sort ?c) = Inr (c_sum (r_components (rs ! i)))"
    by (rule score_one_components)
  with pos have v: "c_sum (r_components (rs ! i)) = 1 - \<bar>?S - ?E\<bar> / ?E"
    by (simp add: sum_score_of_def py_truediv_def bind_def sum_list_sort Let_def)
  from lt pos have "\<bar>?S - ?E\<bar> / ?E < 1" by simp
  moreover from pos have "0 \<le> \<bar>?S - ?E\<bar> / ?E" by simp
  ultimately show ?thesis unfolding v by linarith
qed

end
